theory Spec2Isabelle
  imports Main
begin

section \<open>The releaser (cmd/releaser/main.go): data model\<close>

text \<open>
  Go strings are byte sequences; \<open>string\<close> (a list of 8-bit \<open>char\<close>) is the same thing.
  Go's \<open>int\<close> is taken to be 64 bits wide (amd64, arm64): values are modelled as \<open>int\<close>
  with the range check of \<open>strconv.Atoi\<close> and the wrap-around of \<open>++\<close> written out.
\<close>

record Service =
  Name :: string
  Image :: string
  Version :: string

record Manifest =
  ReleaseVersion :: string
  Services :: "Service list"

datatype IncrementType = IncrementPatch | IncrementMinor | IncrementMajor

text \<open>The \<open>iota\<close> values of the three constants; \<open>incType > maxIncrement\<close> compares them.\<close>

fun inc_rank :: "IncrementType \<Rightarrow> nat" where
  "inc_rank IncrementPatch = 0"
| "inc_rank IncrementMinor = 1"
| "inc_rank IncrementMajor = 2"

text \<open>
  Every Go \<open>error\<close> value the releaser can produce. The text of the error is never inspected by
  the program, only \<open>err != nil\<close>.
\<close>

datatype error =
    InvalidVersionFormat string  \<comment> \<open>\<open>fmt.Errorf("invalid version format: %s", v)\<close>\<close>
  | NumError                     \<comment> \<open>\<open>*strconv.NumError\<close> from \<open>Atoi\<close> (syntax or range)\<close>
  | TransportError               \<comment> \<open>\<open>http.Get\<close> failed\<close>
  | BadStatus nat                \<comment> \<open>\<open>fmt.Errorf("docker hub api returned %d", resp.StatusCode)\<close>\<close>
  | DecodeError                  \<comment> \<open>the JSON decoder failed\<close>
  | ExecError                    \<comment> \<open>a \<open>git\<close> subprocess failed\<close>
  | IOError                      \<comment> \<open>reading or writing the manifest file failed\<close>
  | IndexPanic                   \<comment> \<open>a slice index out of range (run-time panic)\<close>

section \<open>The standard-library functions the releaser calls\<close>

definition intSize :: nat where
  "intSize = 64"

definition maxInt :: int where
  "maxInt = 2 ^ (intSize - 1) - 1"

definition minInt :: int where
  "minInt = - (2 ^ (intSize - 1))"

text \<open>Two's-complement wrap-around of a Go \<open>int\<close> after arithmetic.\<close>

definition wrap_int :: "int \<Rightarrow> int" where
  "wrap_int x = (x + 2 ^ (intSize - 1)) mod 2 ^ intSize - 2 ^ (intSize - 1)"

text \<open>\<open>strings.HasPrefix(s, prefix)\<close> and \<open>strings.TrimPrefix(s, prefix)\<close>.\<close>

definition HasPrefix :: "string \<Rightarrow> string \<Rightarrow> bool" where
  "HasPrefix s pre = (length pre \<le> length s \<and> take (length pre) s = pre)"

definition TrimPrefix :: "string \<Rightarrow> string \<Rightarrow> string" where
  "TrimPrefix s pre = (if HasPrefix s pre then drop (length pre) s else s)"

text \<open>
  \<open>strings.Split(s, sep)\<close> for a one-byte separator, which is what every call site passes
  (\<open>"/"\<close>, \<open>"."\<close>, \<open>"\n"\<close>): the substrings between the separators, so one more element than
  there are separators, and \<open>[s]\<close> when there is none.
\<close>

fun Split :: "string \<Rightarrow> char \<Rightarrow> string list" where
  "Split [] sep = [[]]"
| "Split (c # cs) sep =
     (if c = sep then [] # Split cs sep
      else (case Split cs sep of
              [] \<Rightarrow> [[c]]
            | seg # segs \<Rightarrow> (c # seg) # segs))"

text \<open>
  \<open>strconv.Atoi\<close>: an optional sign \<open>+\<close> or \<open>-\<close>, then one or more decimal digits, read by
  the loop \<open>n = n*10 + digit\<close>; a syntax error on anything else, a range error when the value
  does not fit an \<open>int\<close>.
\<close>

definition digit_val :: "char \<Rightarrow> int option" where
  "digit_val c =
     (let n = (of_char c :: int) in if 48 \<le> n \<and> n \<le> 57 then Some (n - 48) else None)"

fun parse_digits :: "int \<Rightarrow> string \<Rightarrow> int option" where
  "parse_digits n [] = Some n"
| "parse_digits n (c # cs) =
     (case digit_val c of None \<Rightarrow> None | Some d \<Rightarrow> parse_digits (n * 10 + d) cs)"

definition ParseUint :: "string \<Rightarrow> int option" where
  "ParseUint s = (if s = [] then None else parse_digits 0 s)"

definition Atoi :: "string \<Rightarrow> error + int" where
  "Atoi s =
     (case s of
        [] \<Rightarrow> Inl NumError
      | c # cs \<Rightarrow>
          (let neg = (c = CHR ''-'');
               body = (if c = CHR ''+'' \<or> c = CHR ''-'' then cs else s)
           in case ParseUint body of
                None \<Rightarrow> Inl NumError
              | Some un \<Rightarrow>
                  if \<not> neg \<and> un \<ge> 2 ^ (intSize - 1) then Inl NumError
                  else if neg \<and> un > 2 ^ (intSize - 1) then Inl NumError
                  else Inr (if neg then - un else un)))"

text \<open>\<open>fmt.Sprintf("%d", n)\<close> and \<open>fmt.Sprintf("%02d", n)\<close> for an \<open>int\<close>.\<close>

definition digit_char :: "int \<Rightarrow> char" where
  "digit_char d = char_of (48 + d)"

function udigits :: "int \<Rightarrow> string" where
  "udigits n =
     (if n < 10 then [digit_char n] else udigits (n div 10) @ [digit_char (n mod 10)])"
  by pat_completeness auto
termination
proof (relation "measure nat")
  show "wf (measure nat)" by simp
next
  fix n :: int
  assume "\<not> n < 10"
  then have "n div 10 < n" "0 < n" by simp_all
  then show "(n div 10, n) \<in> measure nat" by simp
qed

declare udigits.simps [simp del]

definition fmt_d :: "int \<Rightarrow> string" where
  "fmt_d n = (if n < 0 then CHR ''-'' # udigits (- n) else udigits n)"

definition fmt_02d :: "int \<Rightarrow> string" where
  "fmt_02d n = (if 0 \<le> n \<and> n < 10 then CHR ''0'' # fmt_d n else fmt_d n)"

section \<open>Version model: parseVersion and determineIncrementType\<close>

text \<open>
  \<open>parseVersion\<close> (main.go 207-230). The three \<open>Atoi\<close> calls run in order and the first
  failure returns. On failure no caller reads the numeric results, so only the error is kept.
\<close>

definition parseVersion :: "string \<Rightarrow> error + (int \<times> int \<times> int)" where
  "parseVersion v0 =
     (let v = TrimPrefix v0 ''v'';
          parts = Split v CHR ''.''
      in if length parts < 3 then Inl (InvalidVersionFormat v)
         else case Atoi (parts ! 0) of
                Inl e \<Rightarrow> Inl e
              | Inr major \<Rightarrow>
                  (case Atoi (parts ! 1) of
                     Inl e \<Rightarrow> Inl e
                   | Inr minor \<Rightarrow>
                       (case Atoi (parts ! 2) of
                          Inl e \<Rightarrow> Inl e
                        | Inr patch \<Rightarrow> Inr (major, minor, patch))))"

text \<open>\<open>determineIncrementType\<close> (main.go 232-248).\<close>

definition determineIncrementType :: "string \<Rightarrow> string \<Rightarrow> IncrementType" where
  "determineIncrementType oldVer newVer =
     (case (parseVersion oldVer, parseVersion newVer) of
        (Inr (oMaj, oMin, _), Inr (nMaj, nMin, _)) \<Rightarrow>
          if nMaj > oMaj then IncrementMajor
          else if nMin > oMin then IncrementMinor
          else IncrementPatch
      | _ \<Rightarrow> IncrementPatch)"

section \<open>Tag resolver: getLatestTagFromDockerHub\<close>

text \<open>
  What \<open>http.Get\<close> and the JSON decoder hand back to the resolver: a transport failure, or a
  response with its status code and the decoded \<open>results[].name\<close> list (\<open>None\<close> when the
  body does not decode into \<open>DockerHubTags\<close>).
\<close>

datatype http_result = GetFailed | Response nat "string list option"

text \<open>
  main.go 161-166: the URL that is queried. \<open>parts[0]\<close> and \<open>parts[1]\<close> are slice reads;
  a read out of range would be a run-time panic, kept as the branch \<open>IndexPanic\<close>.
\<close>

definition query_url :: "string \<Rightarrow> error + string" where
  "query_url img =
     (let parts0 = Split img CHR ''/'';
          parts = (if length parts0 = 1 then [''library'', parts0 ! 0] else parts0)
      in case parts of
           p0 # p1 # _ \<Rightarrow>
             Inr (''https://hub.docker.com/v2/repositories/'' @ p0 @ ''/'' @ p1 @ ''/tags?page_size=5'')
         | _ \<Rightarrow> Inl IndexPanic)"

text \<open>main.go 186-190: the loop returning the first tag whose name is not \<open>latest\<close>.\<close>

fun first_not_latest :: "string list \<Rightarrow> string option" where
  "first_not_latest [] = None"
| "first_not_latest (tag # tags) =
     (if tag \<noteq> ''latest'' then Some tag else first_not_latest tags)"

text \<open>main.go 182-196: the selection among the decoded tags.\<close>

definition select_tag :: "string list \<Rightarrow> string" where
  "select_tag results =
     (if length results = 0 then []
      else case first_not_latest results of
             Some tag \<Rightarrow> tag
           | None \<Rightarrow> if length results > 0 then results ! 0 else [])"

definition getLatestTagFromDockerHub :: "(string \<Rightarrow> http_result) \<Rightarrow> string \<Rightarrow> error + string" where
  "getLatestTagFromDockerHub http img =
     (case query_url img of
        Inl e \<Rightarrow> Inl e
      | Inr url \<Rightarrow>
          (case http url of
             GetFailed \<Rightarrow> Inl TransportError
           | Response status body \<Rightarrow>
               if status \<noteq> 200 then Inl (BadStatus status)
               else (case body of
                       None \<Rightarrow> Inl DecodeError
                     | Some results \<Rightarrow> Inr (select_tag results))))"

section \<open>Update scanner: the loop of main (main.go 55-79)\<close>

record scan_state =
  manifest :: Manifest
  updated :: bool
  maxIncrement :: IncrementType

text \<open>
  One iteration. \<open>service\<close> is the loop variable (a copy of element \<open>i\<close>), the write goes
  to \<open>manifest.Services[i]\<close>.
\<close>

definition scan_step :: "(string \<Rightarrow> http_result) \<Rightarrow> nat \<Rightarrow> Service \<Rightarrow> scan_state \<Rightarrow> scan_state" where
  "scan_step http i service st =
     (case getLatestTagFromDockerHub http (Image service) of
        Inl err \<Rightarrow> st
      | Inr latestTag \<Rightarrow>
          if latestTag \<noteq> Version service \<and> latestTag \<noteq> [] then
            (let incType = determineIncrementType (Version service) latestTag;
                 mx = (if inc_rank incType > inc_rank (maxIncrement st)
                       then incType else maxIncrement st);
                 svcs = Services (manifest st)
             in st\<lparr>manifest := (manifest st)\<lparr>Services := svcs[i := (svcs ! i)\<lparr>Version := latestTag\<rparr>]\<rparr>,
                     maxIncrement := mx,
                     updated := True\<rparr>)
          else st)"

text \<open>
  The \<open>range\<close> loop walks the slice as it was when the loop started; the \<open>i\<close>-th call of
  \<open>http.Get\<close> is answered by \<open>http i\<close>.
\<close>

fun scan_loop :: "(nat \<Rightarrow> string \<Rightarrow> http_result) \<Rightarrow> nat \<Rightarrow> Service list \<Rightarrow> scan_state \<Rightarrow> scan_state" where
  "scan_loop http i [] st = st"
| "scan_loop http i (service # rest) st =
     scan_loop http (Suc i) rest (scan_step (http i) i service st)"

definition scan :: "(nat \<Rightarrow> string \<Rightarrow> http_result) \<Rightarrow> Manifest \<Rightarrow> scan_state" where
  "scan http m =
     scan_loop http 0 (Services m) \<lparr>manifest = m, updated = False, maxIncrement = IncrementPatch\<rparr>"

section \<open>Version allocator: generateNewVersion (main.go 250-314)\<close>

record version =
  minor :: int
  patch :: int

text \<open>The body of the loop over the tags (main.go 269-283).\<close>

definition tag_version :: "string \<Rightarrow> string \<Rightarrow> version option" where
  "tag_version prefix tag =
     (if HasPrefix tag prefix then
        (let parts = Split tag CHR ''.''
         in if length parts \<ge> 3 then
              (case (Atoi (parts ! 1), Atoi (parts ! 2)) of
                 (Inr m, Inr p) \<Rightarrow> Some \<lparr>minor = m, patch = p\<rparr>
               | _ \<Rightarrow> None)
            else None)
      else None)"

fun tag_loop :: "string \<Rightarrow> string list \<Rightarrow> version list \<Rightarrow> version list" where
  "tag_loop prefix [] versions = versions"
| "tag_loop prefix (tag # tags) versions =
     tag_loop prefix tags
       (case tag_version prefix tag of Some v \<Rightarrow> versions @ [v] | None \<Rightarrow> versions)"

text \<open>The \<open>less\<close> function handed to \<open>sort.Slice\<close> (main.go 287-292).\<close>

definition version_less :: "version \<Rightarrow> version \<Rightarrow> bool" where
  "version_less a b =
     (if minor a \<noteq> minor b then minor a < minor b else patch a < patch b)"

text \<open>
  \<open>sort.Slice(xs, less)\<close>: the slice sorted ascending by \<open>less\<close>, here by insertion. The
  program reads only the last element of the result.
\<close>

fun insert_by :: "('a \<Rightarrow> 'a \<Rightarrow> bool) \<Rightarrow> 'a \<Rightarrow> 'a list \<Rightarrow> 'a list" where
  "insert_by lt x [] = [x]"
| "insert_by lt x (y # ys) =
     (if lt x y then x # y # ys else y # insert_by lt x ys)"

fun sort_Slice :: "('a \<Rightarrow> 'a \<Rightarrow> bool) \<Rightarrow> 'a list \<Rightarrow> 'a list" where
  "sort_Slice lt [] = []"
| "sort_Slice lt (x # xs) = insert_by lt x (sort_Slice lt xs)"

text \<open>\<open>fmt.Sprintf("v%d%02d", year, week)\<close>.\<close>

definition bucket_prefix :: "int \<Rightarrow> int \<Rightarrow> string" where
  "bucket_prefix year week = ''v'' @ fmt_d year @ fmt_02d week"

text \<open>main.go 294-311: from the sorted versions to the new pair; \<open>++\<close> wraps.\<close>

definition next_version :: "IncrementType \<Rightarrow> version list \<Rightarrow> version" where
  "next_version incType versions =
     (let current = (if length versions > 0 then last versions
                     else \<lparr>minor = 0, patch = - 1\<rparr>)
      in if incType = IncrementMinor \<or> incType = IncrementMajor
         then \<lparr>minor = wrap_int (minor current + 1), patch = 0\<rparr>
         else \<lparr>minor = minor current, patch = wrap_int (patch current + 1)\<rparr>)"

text \<open>
  \<open>generateNewVersion\<close>. Its inputs besides \<open>incType\<close> are what \<open>time.Now().ISOWeek()\<close>
  returns and what \<open>git tag\<close> prints (or its failure).
\<close>

definition generateNewVersion :: "IncrementType \<Rightarrow> int \<times> int \<Rightarrow> error + string \<Rightarrow> error + string" where
  "generateNewVersion incType now git_tag =
     (let prefix = bucket_prefix (fst now) (snd now)
      in case git_tag of
           Inl err \<Rightarrow> Inl err
         | Inr out \<Rightarrow>
             (let tags = Split out (CHR 0x0A);
                  versions = sort_Slice version_less (tag_loop prefix tags []);
                  new = next_version incType versions
              in Inr (prefix @ ''.'' @ fmt_d (minor new) @ ''.'' @ fmt_d (patch new))))"

section \<open>Release orchestrator: main (main.go 45-140)\<close>

text \<open>
  Everything outside the process that \<open>main\<close> consults, call by call: the result of
  \<open>loadManifest\<close>, the answer to the \<open>i\<close>-th registry query, whether the \<open>n\<close>-th
  \<open>saveManifest\<close> and the \<open>n\<close>-th \<open>runGitCommand\<close> succeed, the output of \<open>git tag\<close> and
  the current ISO year and week. The manifest file's content is kept as the \<open>Manifest\<close> value
  it encodes; the JSON text itself is not modelled.
\<close>

record world =
  load_result :: "error + Manifest"
  http_get :: "nat \<Rightarrow> string \<Rightarrow> http_result"
  save_ok :: "nat \<Rightarrow> bool"
  git_ok :: "nat \<Rightarrow> bool"
  git_tag_out :: "error + string"
  now_ISOWeek :: "int \<times> int"

text \<open>The effects of a run, in order: each attempted file write and each \<open>git\<close> subprocess.\<close>

datatype event =
    SaveManifest string Manifest
  | RunGit "string list"
  | GitTagList

definition ManifestFile :: string where
  "ManifestFile = ''release_manifest.json''"

text \<open>\<open>main\<close> returns the exit status of the process and the effects it had.\<close>

definition main :: "world \<Rightarrow> nat \<times> event list" where
  "main w =
     (case load_result w of
        Inl err \<Rightarrow> (1, [])
      | Inr m0 \<Rightarrow>
          (let st = scan (http_get w) m0;
               m1 = manifest st
           in if \<not> updated st then (0, [])
              else
                (let ev1 = [SaveManifest ManifestFile m1] in
                 if \<not> save_ok w 0 then (1, ev1) else
                 let ev2 = ev1 @ [RunGit [''add'', ManifestFile]] in
                 if \<not> git_ok w 0 then (1, ev2) else
                 let ev3 = ev2 @ [RunGit [''commit'', ''-m'', ''chore: update services to latest versions'']] in
                 if \<not> git_ok w 1 then (1, ev3) else
                 let ev4 = ev3 @ [GitTagList] in
                 case generateNewVersion (maxIncrement st) (now_ISOWeek w) (git_tag_out w) of
                   Inl err \<Rightarrow> (1, ev4)
                 | Inr newVersion \<Rightarrow>
                     (let m2 = m1\<lparr>ReleaseVersion := newVersion\<rparr>;
                          ev5 = ev4 @ [SaveManifest ManifestFile m2] in
                      if \<not> save_ok w 1 then (1, ev5) else
                      let ev6 = ev5 @ [RunGit [''add'', ManifestFile]] in
                      if \<not> git_ok w 2 then (1, ev6) else
                      let ev7 = ev6 @ [RunGit [''commit'', ''-m'', ''chore: release '' @ newVersion]] in
                      if \<not> git_ok w 3 then (1, ev7) else
                      let ev8 = ev7 @ [RunGit [''tag'', newVersion]] in
                      if \<not> git_ok w 4 then (1, ev8) else (0, ev8)))))"


section \<open>The effect of one scan iteration on its own service\<close>

text \<open>
  Not a function of the source: what lines 60-78 of main.go make of the service they are
  looking at, given the answer to its registry query. It is used to state the invariant of
  the scan loop.
\<close>

definition scan_service :: "(string \<Rightarrow> http_result) \<Rightarrow> Service \<Rightarrow> Service" where
  "scan_service http service =
     (case getLatestTagFromDockerHub http (Image service) of
        Inl err \<Rightarrow> service
      | Inr latestTag \<Rightarrow>
          if latestTag \<noteq> Version service \<and> latestTag \<noteq> []
          then service\<lparr>Version := latestTag\<rparr> else service)"

section \<open>The reading of a version string, stated without the parser\<close>

text \<open>
  The following definitions do not come from the code. They say in the usual mathematical
  way what a decimal integer literal is and what it denotes, and what shape a version string
  has, so that \<open>parseVersion\<close> can be compared with them.
\<close>

definition is_digit :: "char \<Rightarrow> bool" where
  "is_digit c = (c \<in> set ''0123456789'')"

definition digit_of :: "char \<Rightarrow> int" where
  "digit_of c = of_char c - 48"

text \<open>The number a digit string denotes: the digit at position \<open>i\<close> counts \<open>10 ^ (n - 1 - i)\<close>.\<close>

definition digits_value :: "string \<Rightarrow> int" where
  "digits_value ds = (\<Sum>i<length ds. digit_of (ds ! i) * 10 ^ (length ds - Suc i))"

text \<open>
  A signed decimal literal for the integer \<open>n\<close>: an optional \<open>+\<close> or \<open>-\<close>, then at least one
  digit, denoting a value that fits a 64-bit \<open>int\<close>.
\<close>

definition int_literal :: "string \<Rightarrow> int \<Rightarrow> bool" where
  "int_literal seg n =
     (\<exists>sign ds. seg = sign @ ds \<and> (sign = [] \<or> sign = ''+'' \<or> sign = ''-'')
        \<and> ds \<noteq> [] \<and> (\<forall>c\<in>set ds. is_digit c)
        \<and> n = (if sign = ''-'' then - digits_value ds else digits_value ds)
        \<and> minInt \<le> n \<and> n \<le> maxInt)"

text \<open>One optional leading \<open>v\<close> removed.\<close>

definition strip_v :: "string \<Rightarrow> string" where
  "strip_v s = (case s of [] \<Rightarrow> [] | c # cs \<Rightarrow> if c = CHR ''v'' then cs else s)"

text \<open>
  \<open>s\<close> is a version string for \<open>(major, minor, patch)\<close>: after the optional \<open>v\<close> come
  three dot-free segments separated by dots, each a signed decimal literal for its component,
  and then either nothing or further dot-separated segments.
\<close>

definition version_string :: "string \<Rightarrow> int \<times> int \<times> int \<Rightarrow> bool" where
  "version_string s v =
     (\<exists>s0 s1 s2 rest.
        strip_v s = s0 @ ''.'' @ s1 @ ''.'' @ s2 @ rest
        \<and> CHR ''.'' \<notin> set s0 \<and> CHR ''.'' \<notin> set s1 \<and> CHR ''.'' \<notin> set s2
        \<and> (rest = [] \<or> hd rest = CHR ''.'')
        \<and> int_literal s0 (fst v) \<and> int_literal s1 (fst (snd v)) \<and> int_literal s2 (snd (snd v)))"

section \<open>Facts about the library functions\<close>

lemma Split_not_Nil: "Split s sep \<noteq> []"
  by (induction s) (auto split: list.splits)

lemma Split_no_sep: "sep \<notin> set s \<Longrightarrow> Split s sep = [s]"
  by (induction s) auto

lemma Split_append_sep:
  "sep \<notin> set a \<Longrightarrow> Split (a @ sep # b) sep = a # Split b sep"
  by (induction a) auto

lemma length_Split: "length (Split s sep) = Suc (length (filter (\<lambda>c. c = sep) s))"
  by (induction s) (auto split: list.splits)

lemma Split_segments_no_sep: "seg \<in> set (Split s sep) \<Longrightarrow> sep \<notin> set seg"
proof (induction s arbitrary: seg)
  case Nil
  then show ?case by simp
next
  case (Cons c cs)
  obtain h t where ht: "Split cs sep = h # t"
    using Split_not_Nil [of cs sep] by (cases "Split cs sep") auto
  show ?case
  proof (cases "c = sep")
    case True
    with Cons show ?thesis by auto
  next
    case False
    with Cons.prems ht have "seg = c # h \<or> seg \<in> set t" by simp
    then show ?thesis
    proof
      assume "seg = c # h"
      moreover have "sep \<notin> set h" using Cons.IH [of h] ht by simp
      ultimately show ?thesis using False by auto
    next
      assume "seg \<in> set t"
      then show ?thesis using Cons.IH [of seg] ht by simp
    qed
  qed
qed

section \<open>The registry query is keyed by two segments\<close>

lemma query_url_total: "\<exists>url. query_url img = Inr url"
proof -
  obtain h t where ht: "Split img CHR ''/'' = h # t"
    using Split_not_Nil [of img "CHR ''/''"] by (cases "Split img CHR ''/''") auto
  show ?thesis
  proof (cases t)
    case Nil
    with ht show ?thesis by (simp add: query_url_def)
  next
    case (Cons p1 rest)
    with ht show ?thesis by (simp add: query_url_def)
  qed
qed

lemma query_url_no_slash:
  assumes "CHR ''/'' \<notin> set img"
  shows "query_url img =
    Inr (''https://hub.docker.com/v2/repositories/'' @ ''library'' @ ''/'' @ img @ ''/tags?page_size=5'')"
  using assms by (simp add: query_url_def Split_no_sep)

lemma query_url_two_segments:
  assumes "CHR ''/'' \<notin> set ns" and "CHR ''/'' \<notin> set nm"
  shows "query_url (ns @ ''/'' @ nm) =
    Inr (''https://hub.docker.com/v2/repositories/'' @ ns @ ''/'' @ nm @ ''/tags?page_size=5'')"
  using assms by (simp add: query_url_def Split_append_sep Split_no_sep)

lemma query_url_more_segments:
  assumes "CHR ''/'' \<notin> set ns" and "CHR ''/'' \<notin> set nm"
  shows "query_url (ns @ ''/'' @ nm @ ''/'' @ rest) =
    Inr (''https://hub.docker.com/v2/repositories/'' @ ns @ ''/'' @ nm @ ''/tags?page_size=5'')"
proof -
  have "Split (ns @ ''/'' @ nm @ ''/'' @ rest) CHR ''/'' = ns # nm # Split rest CHR ''/''"
    using assms by (simp add: Split_append_sep)
  then show ?thesis
    using Split_not_Nil [of rest "CHR ''/''"] by (simp add: query_url_def)
qed

text \<open>
  C10. The registry query is keyed by exactly two segments. A reference without \<open>/\<close> is
  queried as \<open>library/<reference>\<close>; a reference \<open>ns/nm\<close> is queried as \<open>ns/nm\<close>; and a
  reference \<open>ns/nm/rest\<close> is queried exactly as \<open>ns/nm\<close> is, so every segment after the
  second is dropped, and the resolver's answer does not depend on it.
\<close>

theorem query_keyed_by_two_segments:
  "(CHR ''/'' \<notin> set img \<longrightarrow>
      query_url img =
        Inr (''https://hub.docker.com/v2/repositories/'' @ ''library'' @ ''/'' @ img @ ''/tags?page_size=5''))
   \<and> (CHR ''/'' \<notin> set ns \<and> CHR ''/'' \<notin> set nm \<longrightarrow>
      query_url (ns @ ''/'' @ nm) =
        Inr (''https://hub.docker.com/v2/repositories/'' @ ns @ ''/'' @ nm @ ''/tags?page_size=5'')
      \<and> query_url (ns @ ''/'' @ nm @ ''/'' @ rest) = query_url (ns @ ''/'' @ nm)
      \<and> getLatestTagFromDockerHub http (ns @ ''/'' @ nm @ ''/'' @ rest) =
          getLatestTagFromDockerHub http (ns @ ''/'' @ nm))"
proof (intro conjI impI)
  assume "CHR ''/'' \<notin> set img"
  then show "query_url img =
        Inr (''https://hub.docker.com/v2/repositories/'' @ ''library'' @ ''/'' @ img @ ''/tags?page_size=5'')"
    by (rule query_url_no_slash)
next
  assume a: "CHR ''/'' \<notin> set ns \<and> CHR ''/'' \<notin> set nm"
  then have a1: "CHR ''/'' \<notin> set ns" and a2: "CHR ''/'' \<notin> set nm" by simp_all
  from a1 a2 show "query_url (ns @ ''/'' @ nm) =
        Inr (''https://hub.docker.com/v2/repositories/'' @ ns @ ''/'' @ nm @ ''/tags?page_size=5'')"
    by (rule query_url_two_segments)
  show q: "query_url (ns @ ''/'' @ nm @ ''/'' @ rest) = query_url (ns @ ''/'' @ nm)"
    using query_url_two_segments [OF a1 a2] query_url_more_segments [OF a1 a2, of rest]
    by simp
  show "getLatestTagFromDockerHub http (ns @ ''/'' @ nm @ ''/'' @ rest) =
          getLatestTagFromDockerHub http (ns @ ''/'' @ nm)"
    unfolding getLatestTagFromDockerHub_def q ..
qed

theorem query_keyed_by_two_segments_witness:
  "query_url ''nginx'' = Inr ''https://hub.docker.com/v2/repositories/library/nginx/tags?page_size=5''
   \<and> query_url ''bitnami/redis'' = Inr ''https://hub.docker.com/v2/repositories/bitnami/redis/tags?page_size=5''
   \<and> query_url ''ghcr.io/acme/tools/api'' = query_url ''ghcr.io/acme''"
proof -
  have a: "CHR ''/'' \<notin> set ''nginx''" by simp
  have b: "CHR ''/'' \<notin> set ''bitnami'' \<and> CHR ''/'' \<notin> set ''redis''" by simp
  have c: "CHR ''/'' \<notin> set ''ghcr.io'' \<and> CHR ''/'' \<notin> set ''acme''" by simp
  from a query_keyed_by_two_segments [of "''nginx''" "''bitnami''" "''redis''" "[]" "\<lambda>_. GetFailed"]
  have 1: "query_url ''nginx'' = Inr ''https://hub.docker.com/v2/repositories/library/nginx/tags?page_size=5''"
    by simp
  from b query_keyed_by_two_segments [of "''nginx''" "''bitnami''" "''redis''" "[]" "\<lambda>_. GetFailed"]
  have 2: "query_url ''bitnami/redis'' = Inr ''https://hub.docker.com/v2/repositories/bitnami/redis/tags?page_size=5''"
    by simp
  from c query_keyed_by_two_segments [of "''nginx''" "''ghcr.io''" "''acme''" "''tools/api''" "\<lambda>_. GetFailed"]
  have 3: "query_url ''ghcr.io/acme/tools/api'' = query_url ''ghcr.io/acme''"
    by simp
  from 1 2 3 show ?thesis by simp
qed

section \<open>Tag selection\<close>

lemma first_not_latest_all_latest:
  "\<forall>t\<in>set tags. t = ''latest'' \<Longrightarrow> first_not_latest tags = None"
  by (induction tags) auto

lemma first_not_latest_index:
  "i < length tags \<Longrightarrow> tags ! i \<noteq> ''latest'' \<Longrightarrow> \<forall>j<i. tags ! j = ''latest''
   \<Longrightarrow> first_not_latest tags = Some (tags ! i)"
proof (induction tags arbitrary: i)
  case Nil
  then show ?case by simp
next
  case (Cons t ts)
  show ?case
  proof (cases i)
    case 0
    with Cons.prems show ?thesis by simp
  next
    case (Suc k)
    with Cons.prems have head: "t = ''latest''" by auto
    have "\<forall>j<k. ts ! j = ''latest''"
    proof (intro allI impI)
      fix j assume "j < k"
      then have "Suc j < i" using Suc by simp
      with Cons.prems(3) have "(t # ts) ! Suc j = ''latest''" by blast
      then show "ts ! j = ''latest''" by simp
    qed
    with Cons.IH [of k] Cons.prems Suc have "first_not_latest ts = Some (ts ! k)" by simp
    with head Suc show ?thesis by simp
  qed
qed

lemma resolver_ok:
  assumes "query_url img = Inr url" and "http url = Response 200 (Some results)"
  shows "getLatestTagFromDockerHub http img = Inr (select_tag results)"
  using assms by (simp add: getLatestTagFromDockerHub_def)

text \<open>
  C5, as the code has it. On a registry response with status exactly 200 whose body decodes
  into the tag list \<open>results\<close>, the resolver returns the empty string and no error when
  the list is empty; otherwise the first tag, in the registry's order, whose name is not
  \<open>latest\<close>; and \<open>latest\<close> itself when every returned tag is named \<open>latest\<close>.
\<close>

theorem resolver_selection:
  assumes "query_url img = Inr url" and "http url = Response 200 (Some results)"
  shows "(results = [] \<longrightarrow> getLatestTagFromDockerHub http img = Inr [])
    \<and> (\<forall>i<length results. results ! i \<noteq> ''latest'' \<and> (\<forall>j<i. results ! j = ''latest'') \<longrightarrow>
          getLatestTagFromDockerHub http img = Inr (results ! i))
    \<and> (results \<noteq> [] \<and> (\<forall>t\<in>set results. t = ''latest'') \<longrightarrow>
          getLatestTagFromDockerHub http img = Inr ''latest'')"
proof (intro conjI allI impI)
  note ok = resolver_ok [of img url http results, OF assms]
  {
  assume "results = []"
  then show "getLatestTagFromDockerHub http img = Inr []"
    using ok by (simp add: select_tag_def)
next
  fix i
  assume i: "i < length results"
    and first: "results ! i \<noteq> ''latest'' \<and> (\<forall>j<i. results ! j = ''latest'')"
  then have "first_not_latest results = Some (results ! i)"
    using first_not_latest_index [of i results] by simp
  moreover from i have "results \<noteq> []" by auto
  ultimately show "getLatestTagFromDockerHub http img = Inr (results ! i)"
    using ok by (simp add: select_tag_def)
next
  assume all: "results \<noteq> [] \<and> (\<forall>t\<in>set results. t = ''latest'')"
  then have none: "first_not_latest results = None"
    using first_not_latest_all_latest by simp
  from all have "results ! 0 = ''latest''"
    by (cases results) auto
  with all none show "getLatestTagFromDockerHub http img = Inr ''latest''"
    using ok by (simp add: select_tag_def)
  }
qed

theorem resolver_selection_witness:
  "getLatestTagFromDockerHub (\<lambda>u. Response 200 (Some [])) ''nginx'' = Inr []
   \<and> getLatestTagFromDockerHub (\<lambda>u. Response 200 (Some [''latest'', ''1.27.0'', ''1.26.3''])) ''nginx''
       = Inr ''1.27.0''
   \<and> getLatestTagFromDockerHub (\<lambda>u. Response 200 (Some [''latest'', ''latest''])) ''nginx''
       = Inr ''latest''"
proof -
  let ?url = "''https://hub.docker.com/v2/repositories/library/nginx/tags?page_size=5''"
  have q: "query_url ''nginx'' = Inr ?url"
    by (simp add: query_url_def)
  have 1: "getLatestTagFromDockerHub (\<lambda>u. Response 200 (Some [])) ''nginx'' = Inr []"
    using resolver_selection [OF q, of "\<lambda>u. Response 200 (Some [])" "[]"] by simp
  have "(1::nat) < length [''latest'', ''1.27.0'', ''1.26.3'']
      \<and> [''latest'', ''1.27.0'', ''1.26.3''] ! 1 \<noteq> ''latest''
      \<and> (\<forall>j<1. [''latest'', ''1.27.0'', ''1.26.3''] ! j = ''latest'')"
    by simp
  then have 2: "getLatestTagFromDockerHub
      (\<lambda>u. Response 200 (Some [''latest'', ''1.27.0'', ''1.26.3''])) ''nginx'' = Inr ''1.27.0''"
    using resolver_selection [OF q,
        of "\<lambda>u. Response 200 (Some [''latest'', ''1.27.0'', ''1.26.3''])" "[''latest'', ''1.27.0'', ''1.26.3'']"]
    by fastforce
  have 3: "getLatestTagFromDockerHub (\<lambda>u. Response 200 (Some [''latest'', ''latest''])) ''nginx''
       = Inr ''latest''"
    using resolver_selection [OF q,
        of "\<lambda>u. Response 200 (Some [''latest'', ''latest''])" "[''latest'', ''latest'']"]
    by simp
  from 1 2 3 show ?thesis by simp
qed

text \<open>
  The claim as the specification words it, for every successful response, fails for the
  success statuses other than 200: line 173 of main.go tests \<open>resp.StatusCode != 200\<close>, so
  a 201 response with a decodable tag list, or a 204 response with an empty one, gives an
  error instead of the tag or the empty result.
\<close>

theorem resolver_status_counterexample:
  "getLatestTagFromDockerHub (\<lambda>url. Response 201 (Some [''latest'', ''1.27.0''])) ''nginx''
     = Inl (BadStatus 201)
   \<and> getLatestTagFromDockerHub (\<lambda>url. Response 204 (Some [])) ''nginx'' = Inl (BadStatus 204)"
  by (simp add: getLatestTagFromDockerHub_def query_url_def)

section \<open>Increment classification\<close>

text \<open>
  C2, as the code has it. \<open>determineIncrementType\<close> returns Major exactly when both strings
  parse and the new major is greater than the old one; Minor exactly when both parse, the new
  major is not greater than the old one (equal or smaller) and the new minor is greater than
  the old one; and Patch in every other case, in particular whenever either string fails to
  parse.
\<close>

theorem determineIncrementType_cases:
  "(determineIncrementType oldVer newVer = IncrementMajor \<longleftrightarrow>
      (\<exists>oMaj oMin oPat nMaj nMin nPat.
         parseVersion oldVer = Inr (oMaj, oMin, oPat) \<and> parseVersion newVer = Inr (nMaj, nMin, nPat)
         \<and> nMaj > oMaj))
   \<and> (determineIncrementType oldVer newVer = IncrementMinor \<longleftrightarrow>
      (\<exists>oMaj oMin oPat nMaj nMin nPat.
         parseVersion oldVer = Inr (oMaj, oMin, oPat) \<and> parseVersion newVer = Inr (nMaj, nMin, nPat)
         \<and> nMaj \<le> oMaj \<and> nMin > oMin))
   \<and> (determineIncrementType oldVer newVer = IncrementPatch \<longleftrightarrow>
      (\<forall>oMaj oMin oPat nMaj nMin nPat.
         parseVersion oldVer = Inr (oMaj, oMin, oPat) \<and> parseVersion newVer = Inr (nMaj, nMin, nPat)
         \<longrightarrow> nMaj \<le> oMaj \<and> nMin \<le> oMin))"
proof (cases "parseVersion oldVer")
  case (Inl e)
  then show ?thesis by (simp add: determineIncrementType_def)
next
  case old: (Inr ov)
  obtain oMaj oMin oPat where ov: "ov = (oMaj, oMin, oPat)" by (cases ov) auto
  show ?thesis
  proof (cases "parseVersion newVer")
    case (Inl e)
    with old show ?thesis by (simp add: determineIncrementType_def)
  next
    case new: (Inr nv)
    obtain nMaj nMin nPat where nv: "nv = (nMaj, nMin, nPat)" by (cases nv) auto
    from old new ov nv show ?thesis
      by (auto simp add: determineIncrementType_def)
  qed
qed

theorem determineIncrementType_cases_witness:
  "determineIncrementType ''v1.0.0'' ''v2.0.0'' = IncrementMajor
   \<and> determineIncrementType ''v1.0.0'' ''v1.1.0'' = IncrementMinor
   \<and> determineIncrementType ''v1.0.0'' ''latest'' = IncrementPatch
   \<and> determineIncrementType ''latest'' ''v1.0.0'' = IncrementPatch
   \<and> determineIncrementType ''v1.0.0'' ''v1.0.1'' = IncrementPatch"
proof -
  have p100: "parseVersion ''v1.0.0'' = Inr (1, 0, 0)" by code_simp
  have p200: "parseVersion ''v2.0.0'' = Inr (2, 0, 0)" by code_simp
  have p110: "parseVersion ''v1.1.0'' = Inr (1, 1, 0)" by code_simp
  have p101: "parseVersion ''v1.0.1'' = Inr (1, 0, 1)" by code_simp
  have platest: "parseVersion ''latest'' = Inl (InvalidVersionFormat ''latest'')" by code_simp
  have 1: "determineIncrementType ''v1.0.0'' ''v2.0.0'' = IncrementMajor"
    using determineIncrementType_cases [of "''v1.0.0''" "''v2.0.0''"] p100 p200 by simp
  have 2: "determineIncrementType ''v1.0.0'' ''v1.1.0'' = IncrementMinor"
    using determineIncrementType_cases [of "''v1.0.0''" "''v1.1.0''"] p100 p110 by simp
  have 3: "determineIncrementType ''v1.0.0'' ''latest'' = IncrementPatch"
    using determineIncrementType_cases [of "''v1.0.0''" "''latest''"] p100 platest by simp
  have 4: "determineIncrementType ''latest'' ''v1.0.0'' = IncrementPatch"
    using determineIncrementType_cases [of "''latest''" "''v1.0.0''"] p100 platest by simp
  have 5: "determineIncrementType ''v1.0.0'' ''v1.0.1'' = IncrementPatch"
    using determineIncrementType_cases [of "''v1.0.0''" "''v1.0.1''"] p100 p101 by simp
  from 1 2 3 4 5 show ?thesis by simp
qed

text \<open>
  The claim as the specification words it (Minor only when the major is unchanged) fails:
  from \<open>v2.0.0\<close> to \<open>v1.5.0\<close> the major decreases, and the result is Minor.
\<close>

theorem determineIncrementType_minor_counterexample:
  "parseVersion ''v2.0.0'' = Inr (2, 0, 0) \<and> parseVersion ''v1.5.0'' = Inr (1, 5, 0)
   \<and> determineIncrementType ''v2.0.0'' ''v1.5.0'' = IncrementMinor"
  by code_simp

section \<open>parseVersion against the reading of a version string\<close>

lemma Split_decompose:
  "Split s sep = h # t \<Longrightarrow>
     sep \<notin> set h \<and> (if t = [] then s = h else \<exists>r. s = h @ sep # r \<and> Split r sep = t)"
proof (induction s arbitrary: h t)
  case Nil
  then show ?case by auto
next
  case (Cons c cs)
  obtain h' t' where ht': "Split cs sep = h' # t'"
    using Split_not_Nil [of cs sep] by (cases "Split cs sep") auto
  show ?case
  proof (cases "c = sep")
    case True
    with Cons.prems have "h = []" "t = Split cs sep" by auto
    with True Split_not_Nil [of cs sep] show ?thesis by auto
  next
    case False
    with Cons.prems ht' have h: "h = c # h'" and t: "t = t'" by auto
    from Cons.IH [OF ht'] have ih: "sep \<notin> set h'"
      "if t' = [] then cs = h' else \<exists>r. cs = h' @ sep # r \<and> Split r sep = t'" by auto
    show ?thesis
    proof (cases "t' = []")
      case True
      with ih h t False show ?thesis by auto
    next
      case nonempty: False
      with ih obtain r where "cs = h' @ sep # r" "Split r sep = t'" by auto
      with ih h t False nonempty show ?thesis by auto
    qed
  qed
qed

lemma Split_three:
  "(\<exists>more. Split s sep = s0 # s1 # s2 # more) \<longleftrightarrow>
   (\<exists>rest. s = s0 @ sep # s1 @ sep # s2 @ rest
      \<and> sep \<notin> set s0 \<and> sep \<notin> set s1 \<and> sep \<notin> set s2 \<and> (rest = [] \<or> hd rest = sep))"
proof
  assume "\<exists>more. Split s sep = s0 # s1 # s2 # more"
  then obtain more where sp: "Split s sep = s0 # s1 # s2 # more" by blast
  from Split_decompose [OF sp] obtain r1 where
    a0: "sep \<notin> set s0" and r1: "s = s0 @ sep # r1" "Split r1 sep = s1 # s2 # more" by auto
  from Split_decompose [OF r1(2)] obtain r2 where
    a1: "sep \<notin> set s1" and r2: "r1 = s1 @ sep # r2" "Split r2 sep = s2 # more" by auto
  from Split_decompose [OF r2(2)] have
    a2: "sep \<notin> set s2" and r3: "if more = [] then r2 = s2 else \<exists>r. r2 = s2 @ sep # r \<and> Split r sep = more"
    by auto
  from r3 obtain rest where "r2 = s2 @ rest" "rest = [] \<or> hd rest = sep"
    by (cases "more = []") auto
  with a0 a1 a2 r1 r2 show "\<exists>rest. s = s0 @ sep # s1 @ sep # s2 @ rest
      \<and> sep \<notin> set s0 \<and> sep \<notin> set s1 \<and> sep \<notin> set s2 \<and> (rest = [] \<or> hd rest = sep)"
    by auto
next
  assume "\<exists>rest. s = s0 @ sep # s1 @ sep # s2 @ rest
      \<and> sep \<notin> set s0 \<and> sep \<notin> set s1 \<and> sep \<notin> set s2 \<and> (rest = [] \<or> hd rest = sep)"
  then obtain rest where s: "s = s0 @ sep # s1 @ sep # s2 @ rest"
    and a: "sep \<notin> set s0" "sep \<notin> set s1" "sep \<notin> set s2" and rest: "rest = [] \<or> hd rest = sep"
    by blast
  have "\<exists>more. Split (s2 @ rest) sep = s2 # more"
  proof (cases rest)
    case Nil
    with a show ?thesis by (simp add: Split_no_sep)
  next
    case (Cons c r)
    with rest have "c = sep" by simp
    with Cons a show ?thesis by (simp add: Split_append_sep)
  qed
  then obtain more where "Split (s2 @ rest) sep = s2 # more" by blast
  with s a have "Split s sep = s0 # s1 # s2 # more"
    by (simp add: Split_append_sep)
  then show "\<exists>more. Split s sep = s0 # s1 # s2 # more" by blast
qed

lemma TrimPrefix_v: "TrimPrefix s ''v'' = strip_v s"
  by (cases s) (auto simp: TrimPrefix_def HasPrefix_def strip_v_def)

lemma is_digit_range: "is_digit c \<longleftrightarrow> 48 \<le> (of_char c :: int) \<and> (of_char c :: int) \<le> 57"
proof
  assume "is_digit c"
  then show "48 \<le> (of_char c :: int) \<and> (of_char c :: int) \<le> 57"
    by (auto simp: is_digit_def)
next
  assume b: "48 \<le> (of_char c :: int) \<and> (of_char c :: int) \<le> 57"
  then have "(of_char c :: int) \<in> {48, 49, 50, 51, 52, 53, 54, 55, 56, 57}" by simp arith
  then have "(of_char c :: int) \<in> of_char ` set ''0123456789''" by simp
  then obtain c' where c': "c' \<in> set ''0123456789''" "(of_char c :: int) = of_char c'" by blast
  then have "c = c'" by simp
  with c' show "is_digit c" by (simp add: is_digit_def)
qed

lemma digit_val_Some: "digit_val c = Some d \<longleftrightarrow> is_digit c \<and> d = digit_of c"
  by (auto simp: digit_val_def Let_def is_digit_range digit_of_def)

lemma digit_val_None: "digit_val c = None \<longleftrightarrow> \<not> is_digit c"
  using digit_val_Some [of c] by (cases "digit_val c") auto

lemma digits_value_Nil: "digits_value [] = 0"
  by (simp add: digits_value_def)

lemma digits_value_Cons:
  "digits_value (c # ds) = digit_of c * 10 ^ length ds + digits_value ds"
  by (simp add: digits_value_def sum.lessThan_Suc_shift del: sum.lessThan_Suc)

lemma parse_digits_Some:
  "parse_digits acc ds = Some v \<longleftrightarrow>
     (\<forall>c\<in>set ds. is_digit c) \<and> v = acc * 10 ^ length ds + digits_value ds"
proof (induction ds arbitrary: acc)
  case Nil
  show ?case by (auto simp: digits_value_Nil)
next
  case (Cons c cs)
  show ?case
  proof (cases "digit_val c")
    case None
    then have "\<not> is_digit c" by (simp add: digit_val_None)
    with None show ?thesis by simp
  next
    case (Some d)
    then have d: "is_digit c" "d = digit_of c" by (simp_all add: digit_val_Some)
    with Some Cons [of "acc * 10 + d"] show ?thesis
      by (simp add: digits_value_Cons algebra_simps)
  qed
qed

lemma ParseUint_Some:
  "ParseUint ds = Some v \<longleftrightarrow> ds \<noteq> [] \<and> (\<forall>c\<in>set ds. is_digit c) \<and> v = digits_value ds"
  by (simp add: ParseUint_def parse_digits_Some)

lemma not_digit_sign: "\<not> is_digit CHR ''+''" "\<not> is_digit CHR ''-''"
  by (simp_all add: is_digit_def)

lemma digits_value_nonneg: "\<forall>c\<in>set ds. is_digit c \<Longrightarrow> 0 \<le> digits_value ds"
proof (induction ds)
  case Nil
  show ?case by (simp add: digits_value_Nil)
next
  case (Cons c cs)
  then have "is_digit c" by simp
  then have "0 \<le> digit_of c" by (auto simp: is_digit_def digit_of_def)
  with Cons show ?case by (simp add: digits_value_Cons)
qed

lemma Atoi_int_literal: "Atoi seg = Inr n \<longleftrightarrow> int_literal seg n"
proof
  assume ok: "Atoi seg = Inr n"
  then obtain c cs where seg: "seg = c # cs" by (cases seg) (auto simp: Atoi_def)
  define body where "body = (if c = CHR ''+'' \<or> c = CHR ''-'' then cs else seg)"
  define sign where "sign = (if c = CHR ''+'' \<or> c = CHR ''-'' then [c] else [])"
  have split: "seg = sign @ body" by (simp add: body_def sign_def seg)
  from ok seg obtain un where un: "ParseUint body = Some un"
    by (cases "ParseUint body") (auto simp: Atoi_def Let_def body_def)
  then have digits: "body \<noteq> []" "\<forall>c\<in>set body. is_digit c" "un = digits_value body"
    by (simp_all add: ParseUint_Some)
  from ok seg un have res:
    "\<not> (c \<noteq> CHR ''-'' \<and> un \<ge> 2 ^ 63)" "\<not> (c = CHR ''-'' \<and> un > 2 ^ 63)"
    "n = (if c = CHR ''-'' then - un else un)"
    by (auto simp: Atoi_def Let_def body_def intSize_def split: if_splits)
  have nonneg: "0 \<le> un" using digits digits_value_nonneg by simp
  have signs: "sign = [] \<or> sign = ''+'' \<or> sign = ''-''" by (auto simp: sign_def)
  have neg: "sign = ''-'' \<longleftrightarrow> c = CHR ''-''" by (auto simp: sign_def)
  have "minInt \<le> n \<and> n \<le> maxInt"
    using res nonneg by (auto simp: minInt_def maxInt_def intSize_def)
  with split signs digits res neg show "int_literal seg n"
    unfolding int_literal_def by (intro exI [of _ sign] exI [of _ body]) simp
next
  assume "int_literal seg n"
  then obtain sign ds where lit: "seg = sign @ ds" "sign = [] \<or> sign = ''+'' \<or> sign = ''-''"
    "ds \<noteq> []" "\<forall>c\<in>set ds. is_digit c"
    "n = (if sign = ''-'' then - digits_value ds else digits_value ds)"
    "minInt \<le> n" "n \<le> maxInt"
    unfolding int_literal_def by blast
  have pu: "ParseUint ds = Some (digits_value ds)" using lit by (simp add: ParseUint_Some)
  have nonneg: "0 \<le> digits_value ds" using lit digits_value_nonneg by simp
  from lit(3) obtain d ds' where ds: "ds = d # ds'" by (cases ds) auto
  with lit have d: "is_digit d" by simp
  then have dsign: "d \<noteq> CHR ''+''" "d \<noteq> CHR ''-''" using not_digit_sign by auto
  from lit(2) show "Atoi seg = Inr n"
  proof (elim disjE)
    assume "sign = []"
    with lit ds dsign pu nonneg show ?thesis
      by (simp add: Atoi_def Let_def maxInt_def intSize_def)
  next
    assume "sign = ''+''"
    with lit pu nonneg show ?thesis
      by (simp add: Atoi_def Let_def maxInt_def intSize_def)
  next
    assume "sign = ''-''"
    with lit pu nonneg show ?thesis
      by (simp add: Atoi_def Let_def minInt_def intSize_def)
  qed
qed

lemma parseVersion_Inr_iff:
  "parseVersion s = Inr (a, b, c) \<longleftrightarrow>
   (\<exists>s0 s1 s2 more. Split (strip_v s) CHR ''.'' = s0 # s1 # s2 # more
      \<and> Atoi s0 = Inr a \<and> Atoi s1 = Inr b \<and> Atoi s2 = Inr c)"
proof (cases "Split (strip_v s) CHR ''.''")
  case Nil
  then show ?thesis using Split_not_Nil by blast
next
  case c0: (Cons s0 t0)
  show ?thesis
  proof (cases t0)
    case Nil
    with c0 show ?thesis by (simp add: parseVersion_def TrimPrefix_v)
  next
    case c1: (Cons s1 t1)
    show ?thesis
    proof (cases t1)
      case Nil
      with c0 c1 show ?thesis by (simp add: parseVersion_def TrimPrefix_v)
    next
      case c2: (Cons s2 more)
      with c0 c1 show ?thesis
        by (auto simp: parseVersion_def TrimPrefix_v Let_def split: sum.splits)
    qed
  qed
qed

text \<open>
  C3, as the code has it. \<open>parseVersion\<close> succeeds with \<open>(major, minor, patch)\<close> exactly when
  the string, after one optional leading \<open>v\<close> is removed, starts with three dot-separated
  segments (further segments are ignored) each of which is a decimal integer literal with an
  optional sign \<open>+\<close> or \<open>-\<close> and a value within the range of \<open>int\<close>; the result is then
  exactly the three integers denoted, which may be negative. In every other case it returns
  an error.
\<close>

theorem parseVersion_succeeds_iff:
  "(parseVersion s = Inr v \<longleftrightarrow> version_string s v)
   \<and> ((\<nexists>v. version_string s v) \<longrightarrow> (\<exists>e. parseVersion s = Inl e))"
proof -
  obtain a b c where v: "v = (a, b, c)" by (cases v) auto
  have iff: "parseVersion s = Inr w \<longleftrightarrow> version_string s w" for w
  proof -
    obtain a b c where w: "w = (a, b, c)" by (cases w) auto
    have "parseVersion s = Inr (a, b, c) \<longleftrightarrow>
      (\<exists>s0 s1 s2. (\<exists>more. Split (strip_v s) CHR ''.'' = s0 # s1 # s2 # more)
         \<and> int_literal s0 a \<and> int_literal s1 b \<and> int_literal s2 c)"
      unfolding parseVersion_Inr_iff Atoi_int_literal by blast
    also have "\<dots> \<longleftrightarrow> version_string s (a, b, c)"
      unfolding Split_three version_string_def by auto
    finally show ?thesis using w by simp
  qed
  have "\<exists>e. parseVersion s = Inl e" if "\<nexists>v. version_string s v"
  proof (cases "parseVersion s")
    case (Inl e)
    then show ?thesis by blast
  next
    case (Inr w)
    with iff [of w] that show ?thesis by blast
  qed
  with iff [of v] show ?thesis by blast
qed

theorem parseVersion_succeeds_iff_witness:
  "parseVersion ''v1.2.3'' = Inr (1, 2, 3) \<and> version_string ''v1.2.3'' (1, 2, 3)
   \<and> parseVersion ''1.-2.3.4'' = Inr (1, - 2, 3) \<and> version_string ''1.-2.3.4'' (1, - 2, 3)"
proof -
  have 1: "parseVersion ''v1.2.3'' = Inr (1, 2, 3)" by code_simp
  have 2: "parseVersion ''1.-2.3.4'' = Inr (1, - 2, 3)" by code_simp
  have 3: "version_string ''v1.2.3'' (1, 2, 3)"
    by (rule parseVersion_succeeds_iff [THEN conjunct1, THEN iffD1, OF 1])
  have 4: "version_string ''1.-2.3.4'' (1, - 2, 3)"
    by (rule parseVersion_succeeds_iff [THEN conjunct1, THEN iffD1, OF 2])
  show ?thesis by (rule conjI 1 2 3 4)+
qed

text \<open>
  The claim as the specification words it (segments are non-negative integers, and so are
  the results) fails in both directions: a segment \<open>-2\<close> is accepted and gives a negative
  component, and a segment of digits only is rejected when its value does not fit an \<open>int\<close>.
\<close>

theorem parseVersion_nonneg_counterexample:
  "parseVersion ''1.-2.3'' = Inr (1, - 2, 3)
   \<and> parseVersion ''9223372036854775808.0.0'' = Inl NumError"
  by code_simp

section \<open>Version allocation\<close>

subsection \<open>Sorting and its last element\<close>






lemma version_less_asym: "version_less a b \<Longrightarrow> \<not> version_less b a"
  by (auto simp: version_less_def split: if_splits)







subsection \<open>The versions read from the tag list\<close>



lemma tag_loop_no_prefix:
  "\<forall>tag\<in>set tags. \<not> HasPrefix tag prefix \<Longrightarrow> tag_loop prefix tags [] = []"
  by (induction tags) (auto simp: tag_version_def)

lemma wrap_int_id: "minInt \<le> x \<Longrightarrow> x \<le> maxInt \<Longrightarrow> wrap_int x = x"
  by (simp add: wrap_int_def minInt_def maxInt_def intSize_def)

lemma fmt_d_0: "fmt_d 0 = ''0''"
  by code_simp

lemma fmt_d_1: "fmt_d 1 = ''1''"
  by code_simp

text \<open>
  C4, as the code has it. When no existing tag begins with the bucket prefix, a Patch scan
  emits \<open><prefix>.0.0\<close> and a Minor or a Major scan emits \<open><prefix>.1.0\<close>: the current
  pair starts at \<open>(0, -1)\<close>, the patch path increments the patch to 0, and the minor path
  increments the minor to 1 and resets the patch to 0.
\<close>

theorem first_version_in_bucket:
  assumes "\<forall>tag\<in>set (Split out (CHR 0x0A)). \<not> HasPrefix tag (bucket_prefix year week)"
  shows "generateNewVersion IncrementPatch (year, week) (Inr out)
           = Inr (bucket_prefix year week @ ''.0.0'')
    \<and> generateNewVersion IncrementMinor (year, week) (Inr out)
           = Inr (bucket_prefix year week @ ''.1.0'')
    \<and> generateNewVersion IncrementMajor (year, week) (Inr out)
           = Inr (bucket_prefix year week @ ''.1.0'')"
proof -
  have none: "tag_loop (bucket_prefix year week) (Split out (CHR 0x0A)) [] = []"
    using assms by (rule tag_loop_no_prefix)
  have w0: "wrap_int 0 = 0" and w1: "wrap_int 1 = 1"
    by (simp_all add: wrap_int_id minInt_def maxInt_def intSize_def)
  show ?thesis
    by (simp add: generateNewVersion_def none next_version_def w0 w1 fmt_d_0 fmt_d_1)
qed

theorem first_version_in_bucket_witness:
  "generateNewVersion IncrementPatch (2024, 52) (Inr ''v202451.0.3'') = Inr ''v202452.0.0''
   \<and> generateNewVersion IncrementMinor (2024, 52) (Inr ''v202451.0.3'') = Inr ''v202452.1.0''
   \<and> generateNewVersion IncrementMajor (2024, 52) (Inr ''v202451.0.3'') = Inr ''v202452.1.0''"
proof -
  have p: "bucket_prefix 2024 52 = ''v202452''" by code_simp
  have s: "Split ''v202451.0.3'' (CHR 0x0A) = [''v202451.0.3'']" by (simp add: Split_no_sep)
  have h: "\<forall>tag\<in>set (Split ''v202451.0.3'' (CHR 0x0A)). \<not> HasPrefix tag (bucket_prefix 2024 52)"
    unfolding p s by (simp add: HasPrefix_def)
  show ?thesis
    using first_version_in_bucket [OF h] unfolding p by simp
qed

text \<open>
  The claim as the specification words it, \<open><prefix>.0.0\<close> for every severity, fails for a
  Minor and for a Major scan: with no tag in the bucket of week 52 of 2024 they emit
  \<open>v202452.1.0\<close>.
\<close>

theorem first_version_minor_counterexample:
  "bucket_prefix 2024 52 = ''v202452''
   \<and> generateNewVersion IncrementMinor (2024, 52) (Inr []) = Inr ''v202452.1.0''
   \<and> generateNewVersion IncrementMajor (2024, 52) (Inr ''v202451.0.3'') = Inr ''v202452.1.0''"
proof -
  have 1: "bucket_prefix 2024 52 = ''v202452''" by code_simp
  have 2: "generateNewVersion IncrementMinor (2024, 52) (Inr []) = Inr ''v202452.1.0''"
    by code_simp
  have 3: "generateNewVersion IncrementMajor (2024, 52) (Inr ''v202451.0.3'') = Inr ''v202452.1.0''"
    by code_simp
  show ?thesis by (rule conjI 1 2 3)+
qed

subsection \<open>Printing an integer and reading it back\<close>












subsection \<open>The new version against the existing ones\<close>











section \<open>The scan loop\<close>

lemma scan_service_changed:
  "scan_service h s \<noteq> s \<longleftrightarrow>
     (\<exists>t. getLatestTagFromDockerHub h (Image s) = Inr t \<and> t \<noteq> Version s \<and> t \<noteq> [])"
proof (cases "getLatestTagFromDockerHub h (Image s)")
  case (Inl e)
  then show ?thesis by (simp add: scan_service_def)
next
  case (Inr t)
  have "s\<lparr>Version := t\<rparr> \<noteq> s" if "t \<noteq> Version s"
  proof
    assume "s\<lparr>Version := t\<rparr> = s"
    then have "Version (s\<lparr>Version := t\<rparr>) = Version s" by simp
    with that show False by simp
  qed
  with Inr show ?thesis by (auto simp: scan_service_def)
qed

lemma scan_service_frame:
  "Name (scan_service h s) = Name s" "Image (scan_service h s) = Image s"
  by (simp_all add: scan_service_def split: sum.splits)

lemma scan_step_manifest:
  assumes "Services (manifest st) = pre @ s # rest" and "length pre = i"
  shows "Services (manifest (scan_step h i s st)) = pre @ scan_service h s # rest"
    and "ReleaseVersion (manifest (scan_step h i s st)) = ReleaseVersion (manifest st)"
    and "updated (scan_step h i s st) \<longleftrightarrow> updated st \<or> scan_service h s \<noteq> s"
proof -
  have nth: "(pre @ s # rest) ! i = s" and upd: "\<And>x. (pre @ s # rest)[i := x] = pre @ x # rest"
    using assms(2) by (simp_all add: nth_append list_update_append)
  show "Services (manifest (scan_step h i s st)) = pre @ scan_service h s # rest"
    using assms(1) nth upd
    by (cases "getLatestTagFromDockerHub h (Image s)")
       (simp_all add: scan_step_def scan_service_def Let_def)
  show "ReleaseVersion (manifest (scan_step h i s st)) = ReleaseVersion (manifest st)"
    by (cases "getLatestTagFromDockerHub h (Image s)")
       (simp_all add: scan_step_def Let_def)
  show "updated (scan_step h i s st) \<longleftrightarrow> updated st \<or> scan_service h s \<noteq> s"
    unfolding scan_service_changed
    by (cases "getLatestTagFromDockerHub h (Image s)")
       (simp_all add: scan_step_def Let_def)
qed

lemma scan_loop_manifest:
  assumes "Services (manifest st) = pre @ todo" and "length pre = i"
  shows "Services (manifest (scan_loop http i todo st))
           = pre @ map (\<lambda>k. scan_service (http (i + k)) (todo ! k)) [0..<length todo]
       \<and> ReleaseVersion (manifest (scan_loop http i todo st)) = ReleaseVersion (manifest st)
       \<and> (updated (scan_loop http i todo st) \<longleftrightarrow>
            updated st \<or> (\<exists>k<length todo. scan_service (http (i + k)) (todo ! k) \<noteq> todo ! k))"
  using assms
proof (induction todo arbitrary: i st pre)
  case Nil
  then show ?case by simp
next
  case (Cons s rest)
  let ?st = "scan_step (http i) i s st"
  note step = scan_step_manifest [OF Cons.prems, of "http i"]
  have pre': "Services (manifest ?st) = (pre @ [scan_service (http i) s]) @ rest"
    and len': "length (pre @ [scan_service (http i) s]) = Suc i"
    using step(1) Cons.prems(2) by simp_all
  note ih = Cons.IH [OF pre' len', unfolded step(2) step(3)]
  have shift: "map (\<lambda>k. scan_service (http (i + k)) ((s # rest) ! k)) [0..<length (s # rest)]
      = scan_service (http i) s # map (\<lambda>k. scan_service (http (Suc i + k)) (rest ! k)) [0..<length rest]"
  proof -
    have "[0..<length (s # rest)] = 0 # map Suc [0..<length rest]"
      by (simp add: upt_conv_Cons map_Suc_upt del: upt_Suc)
    then show ?thesis by (simp add: comp_def)
  qed
  have ex: "(\<exists>k<length (s # rest). scan_service (http (i + k)) ((s # rest) ! k) \<noteq> (s # rest) ! k)
      \<longleftrightarrow> scan_service (http i) s \<noteq> s
          \<or> (\<exists>k<length rest. scan_service (http (Suc i + k)) (rest ! k) \<noteq> rest ! k)"
    (is "?L \<longleftrightarrow> ?R")
  proof
    assume ?L
    then obtain k where k: "k < length (s # rest)"
      "scan_service (http (i + k)) ((s # rest) ! k) \<noteq> (s # rest) ! k" by blast
    show ?R
    proof (cases k)
      case 0
      with k show ?thesis by simp
    next
      case (Suc k')
      with k have "k' < length rest" "scan_service (http (Suc i + k')) (rest ! k') \<noteq> rest ! k'"
        by simp_all
      then show ?thesis by blast
    qed
  next
    assume ?R
    then show ?L
    proof
      assume "scan_service (http i) s \<noteq> s"
      then have "0 < length (s # rest) \<and> scan_service (http (i + 0)) ((s # rest) ! 0) \<noteq> (s # rest) ! 0"
        by simp
      then show ?L by blast
    next
      assume "\<exists>k<length rest. scan_service (http (Suc i + k)) (rest ! k) \<noteq> rest ! k"
      then obtain k where "k < length rest" "scan_service (http (Suc i + k)) (rest ! k) \<noteq> rest ! k"
        by blast
      then have "Suc k < length (s # rest)
          \<and> scan_service (http (i + Suc k)) ((s # rest) ! Suc k) \<noteq> (s # rest) ! Suc k"
        by simp
      then show ?L by blast
    qed
  qed
  show ?case
    unfolding shift ex using ih by auto
qed

lemma scan_manifest:
  "Services (manifest (scan http m))
     = map (\<lambda>k. scan_service (http k) (Services m ! k)) [0..<length (Services m)]"
  "ReleaseVersion (manifest (scan http m)) = ReleaseVersion m"
  "updated (scan http m) \<longleftrightarrow>
     (\<exists>k<length (Services m). scan_service (http k) (Services m ! k) \<noteq> Services m ! k)"
  using scan_loop_manifest [of "\<lparr>manifest = m, updated = False, maxIncrement = IncrementPatch\<rparr>"
      "[]" "Services m" 0 http]
  by (simp_all add: scan_def)

lemma scan_services_length: "length (Services (manifest (scan http m))) = length (Services m)"
  by (simp add: scan_manifest)

lemma scan_services_nth:
  "i < length (Services m) \<Longrightarrow>
     Services (manifest (scan http m)) ! i = scan_service (http i) (Services m ! i)"
  by (simp add: scan_manifest)

section \<open>What a scan changes\<close>

text \<open>
  C7. For every manifest and every answer of the registry, the scan replaces the version of
  service \<open>i\<close> by the resolved tag exactly when the resolver succeeded with a tag that is
  non-empty and differs from the recorded version, and leaves the service as it was in every
  other case. It never changes a name, an image, the release version, or the number and order
  of the services.
\<close>

theorem scan_frame:
  "length (Services (manifest (scan http m))) = length (Services m)
   \<and> ReleaseVersion (manifest (scan http m)) = ReleaseVersion m
   \<and> (\<forall>i<length (Services m).
        Name (Services (manifest (scan http m)) ! i) = Name (Services m ! i)
      \<and> Image (Services (manifest (scan http m)) ! i) = Image (Services m ! i)
      \<and> (case getLatestTagFromDockerHub (http i) (Image (Services m ! i)) of
           Inl err \<Rightarrow> Services (manifest (scan http m)) ! i = Services m ! i
         | Inr tag \<Rightarrow>
             if tag \<noteq> [] \<and> tag \<noteq> Version (Services m ! i)
             then Services (manifest (scan http m)) ! i = (Services m ! i)\<lparr>Version := tag\<rparr>
             else Services (manifest (scan http m)) ! i = Services m ! i))"
proof (intro conjI allI impI)
  show "length (Services (manifest (scan http m))) = length (Services m)"
    by (rule scan_services_length)
  show "ReleaseVersion (manifest (scan http m)) = ReleaseVersion m"
    by (rule scan_manifest(2))
next
  fix i assume i: "i < length (Services m)"
  note nth = scan_services_nth [OF i, of http]
  show "Name (Services (manifest (scan http m)) ! i) = Name (Services m ! i)"
    unfolding nth by (rule scan_service_frame(1))
  show "Image (Services (manifest (scan http m)) ! i) = Image (Services m ! i)"
    unfolding nth by (rule scan_service_frame(2))
  show "case getLatestTagFromDockerHub (http i) (Image (Services m ! i)) of
           Inl err \<Rightarrow> Services (manifest (scan http m)) ! i = Services m ! i
         | Inr tag \<Rightarrow>
             if tag \<noteq> [] \<and> tag \<noteq> Version (Services m ! i)
             then Services (manifest (scan http m)) ! i = (Services m ! i)\<lparr>Version := tag\<rparr>
             else Services (manifest (scan http m)) ! i = Services m ! i"
    unfolding nth by (auto simp: scan_service_def split: sum.splits)
qed

theorem scan_frame_witness:
  "Services (manifest (scan
      (\<lambda>i url. if i = 0 then Response 200 (Some [''latest'', ''1.26.0'']) else GetFailed)
      \<lparr>ReleaseVersion = ''v202451.0.0'',
        Services = [\<lparr>Name = ''web'', Image = ''nginx'', Version = ''1.25.0''\<rparr>,
                    \<lparr>Name = ''cache'', Image = ''redis'', Version = ''7.2.4''\<rparr>]\<rparr>)) ! 0
     = \<lparr>Name = ''web'', Image = ''nginx'', Version = ''1.26.0''\<rparr>
   \<and> Services (manifest (scan
      (\<lambda>i url. if i = 0 then Response 200 (Some [''latest'', ''1.26.0'']) else GetFailed)
      \<lparr>ReleaseVersion = ''v202451.0.0'',
        Services = [\<lparr>Name = ''web'', Image = ''nginx'', Version = ''1.25.0''\<rparr>,
                    \<lparr>Name = ''cache'', Image = ''redis'', Version = ''7.2.4''\<rparr>]\<rparr>)) ! 1
     = \<lparr>Name = ''cache'', Image = ''redis'', Version = ''7.2.4''\<rparr>"
proof -
  let ?h = "\<lambda>(i::nat) (url::string). if i = 0 then Response 200 (Some [''latest'', ''1.26.0'']) else GetFailed"
  let ?m = "\<lparr>ReleaseVersion = ''v202451.0.0'',
        Services = [\<lparr>Name = ''web'', Image = ''nginx'', Version = ''1.25.0''\<rparr>,
                    \<lparr>Name = ''cache'', Image = ''redis'', Version = ''7.2.4''\<rparr>]\<rparr>"
  have r0: "getLatestTagFromDockerHub (?h 0) ''nginx'' = Inr ''1.26.0''"
    by (simp add: getLatestTagFromDockerHub_def query_url_def select_tag_def)
  have r1: "getLatestTagFromDockerHub (?h 1) ''redis'' = Inl TransportError"
    by (simp add: getLatestTagFromDockerHub_def query_url_def)
  from scan_frame [of ?h ?m] have all: "\<forall>i<length (Services ?m).
      (case getLatestTagFromDockerHub (?h i) (Image (Services ?m ! i)) of
           Inl err \<Rightarrow> Services (manifest (scan ?h ?m)) ! i = Services ?m ! i
         | Inr tag \<Rightarrow>
             if tag \<noteq> [] \<and> tag \<noteq> Version (Services ?m ! i)
             then Services (manifest (scan ?h ?m)) ! i = (Services ?m ! i)\<lparr>Version := tag\<rparr>
             else Services (manifest (scan ?h ?m)) ! i = Services ?m ! i)"
    by blast
  from all [rule_format, of 0] r0
  have 0: "Services (manifest (scan ?h ?m)) ! 0 = \<lparr>Name = ''web'', Image = ''nginx'', Version = ''1.26.0''\<rparr>"
    by simp
  from all [rule_format, of 1] r1
  have 1: "Services (manifest (scan ?h ?m)) ! 1 = \<lparr>Name = ''cache'', Image = ''redis'', Version = ''7.2.4''\<rparr>"
    by simp
  show ?thesis by (rule conjI 0 1)+
qed

section \<open>Registry failures and runs without updates\<close>

lemma resolver_fails:
  assumes "query_url img = Inr url"
    and "h url = GetFailed \<or> (\<exists>status body. h url = Response status body \<and> status \<noteq> 200)"
  shows "\<exists>err. getLatestTagFromDockerHub h img = Inl err"
  using assms by (auto simp: getLatestTagFromDockerHub_def)

lemma scan_service_error:
  "getLatestTagFromDockerHub h (Image s) = Inl err \<Longrightarrow> scan_service h s = s"
  by (simp add: scan_service_def)

lemma scan_step_error:
  "getLatestTagFromDockerHub h (Image s) = Inl err \<Longrightarrow> scan_step h i s st = st"
  by (simp add: scan_step_def)

lemma generateNewVersion_returns:
  "\<exists>v. generateNewVersion incType now (Inr out) = Inr v"
  by (simp add: generateNewVersion_def Let_def)

lemma main_exit_0:
  assumes "load_result w = Inr m" and "\<forall>n. save_ok w n" and "\<forall>n. git_ok w n"
    and "git_tag_out w = Inr out"
  shows "fst (main w) = 0"
proof -
  obtain v where v: "generateNewVersion (maxIncrement (scan (http_get w) m)) (now_ISOWeek w) (Inr out) = Inr v"
    using generateNewVersion_returns by blast
  show ?thesis
    using assms v by (simp add: main_def Let_def)
qed

lemma main_no_update:
  assumes "load_result w = Inr m" and "\<not> updated (scan (http_get w) m)"
  shows "main w = (0, [])"
  using assms by (simp add: main_def Let_def)

lemma scan_unchanged:
  assumes "\<forall>k<length (Services m). scan_service (http k) (Services m ! k) = Services m ! k"
  shows "\<not> updated (scan http m)" and "manifest (scan http m) = m"
proof -
  show "\<not> updated (scan http m)"
    using assms by (simp add: scan_manifest(3))
  have "Services (manifest (scan http m)) = Services m"
    using assms by (intro nth_equalityI) (simp_all add: scan_manifest(1))
  moreover have "ReleaseVersion (manifest (scan http m)) = ReleaseVersion m"
    by (rule scan_manifest(2))
  ultimately show "manifest (scan http m) = m"
    by (intro Manifest.equality) simp_all
qed

lemma scan_service_idem: "scan_service h (scan_service h s) = scan_service h s"
proof (cases "getLatestTagFromDockerHub h (Image s)")
  case (Inl e)
  then show ?thesis by (simp add: scan_service_def)
next
  case (Inr t)
  show ?thesis
  proof (cases "t \<noteq> Version s \<and> t \<noteq> []")
    case True
    with Inr have s': "scan_service h s = s\<lparr>Version := t\<rparr>" by (simp add: scan_service_def)
    show ?thesis unfolding s' using Inr by (simp add: scan_service_def)
  next
    case False
    with Inr have s': "scan_service h s = s" by (auto simp: scan_service_def)
    show ?thesis unfolding s' ..
  qed
qed

lemma rescan_unchanged:
  "\<forall>k<length (Services ((manifest (scan http m))\<lparr>ReleaseVersion := rv\<rparr>)).
     scan_service (http k) (Services ((manifest (scan http m))\<lparr>ReleaseVersion := rv\<rparr>) ! k)
       = Services ((manifest (scan http m))\<lparr>ReleaseVersion := rv\<rparr>) ! k"
  by (simp add: scan_manifest(1) scan_service_idem)

text \<open>
  C8. When the registry query of service \<open>i\<close> fails (a transport error, or a status that
  is not 2xx), the resolver returns an error, the service keeps its recorded version, the
  loop goes on with the remaining services in their order (each of them is treated according
  to its own answer), and the failure by itself does not make the run exit non-zero: if the
  manifest loads and every save and git step succeeds, the exit status is 0 whatever the
  registry answered.
\<close>

theorem registry_failure_skipped:
  assumes "i < length (Services m)"
    and "query_url (Image (Services m ! i)) = Inr url"
    and "http i url = GetFailed
         \<or> (\<exists>status body. http i url = Response status body \<and> \<not> (200 \<le> status \<and> status < 300))"
  shows "(\<exists>err. getLatestTagFromDockerHub (http i) (Image (Services m ! i)) = Inl err)
    \<and> Services (manifest (scan http m)) ! i = Services m ! i
    \<and> (\<forall>rest st. scan_loop http i (Services m ! i # rest) st = scan_loop http (Suc i) rest st)
    \<and> (\<forall>j<length (Services m). j \<noteq> i \<longrightarrow>
          Services (manifest (scan http m)) ! j = scan_service (http j) (Services m ! j))
    \<and> (\<forall>w out. load_result w = Inr m \<and> http_get w = http
          \<and> (\<forall>n. save_ok w n) \<and> (\<forall>n. git_ok w n) \<and> git_tag_out w = Inr out
          \<longrightarrow> fst (main w) = 0)"
proof -
  from assms(3) have "http i url = GetFailed
      \<or> (\<exists>status body. http i url = Response status body \<and> status \<noteq> 200)"
    by auto
  with assms(2) obtain err where
    err: "getLatestTagFromDockerHub (http i) (Image (Services m ! i)) = Inl err"
    using resolver_fails [of "Image (Services m ! i)" url "http i"] by blast
  have keep: "Services (manifest (scan http m)) ! i = Services m ! i"
    using scan_services_nth [OF assms(1), of http] scan_service_error [OF err] by simp
  have continue: "scan_loop http i (Services m ! i # rest) st = scan_loop http (Suc i) rest st"
    for rest st
    by (simp add: scan_step_error [OF err])
  have others: "\<forall>j<length (Services m). j \<noteq> i \<longrightarrow>
      Services (manifest (scan http m)) ! j = scan_service (http j) (Services m ! j)"
    by (simp add: scan_services_nth)
  have exit0: "\<forall>w out. load_result w = Inr m \<and> http_get w = http
          \<and> (\<forall>n. save_ok w n) \<and> (\<forall>n. git_ok w n) \<and> git_tag_out w = Inr out
          \<longrightarrow> fst (main w) = 0"
    using main_exit_0 by blast
  from err keep continue others exit0 show ?thesis by blast
qed

theorem registry_failure_skipped_witness:
  "getLatestTagFromDockerHub (\<lambda>url. Response 503 None) ''nginx'' = Inl (BadStatus 503)
   \<and> Services (manifest (scan
        (\<lambda>i url. if i = 0 then Response 503 None else Response 200 (Some [''7.4.0'']))
        \<lparr>ReleaseVersion = ''v202451.0.0'',
          Services = [\<lparr>Name = ''web'', Image = ''nginx'', Version = ''1.25.0''\<rparr>,
                      \<lparr>Name = ''cache'', Image = ''redis'', Version = ''7.2.4''\<rparr>]\<rparr>)) ! 0
       = \<lparr>Name = ''web'', Image = ''nginx'', Version = ''1.25.0''\<rparr>
   \<and> Services (manifest (scan
        (\<lambda>i url. if i = 0 then Response 503 None else Response 200 (Some [''7.4.0'']))
        \<lparr>ReleaseVersion = ''v202451.0.0'',
          Services = [\<lparr>Name = ''web'', Image = ''nginx'', Version = ''1.25.0''\<rparr>,
                      \<lparr>Name = ''cache'', Image = ''redis'', Version = ''7.2.4''\<rparr>]\<rparr>)) ! 1
       = \<lparr>Name = ''cache'', Image = ''redis'', Version = ''7.4.0''\<rparr>
   \<and> fst (main \<lparr>load_result = Inr \<lparr>ReleaseVersion = ''v202451.0.0'',
          Services = [\<lparr>Name = ''web'', Image = ''nginx'', Version = ''1.25.0''\<rparr>,
                      \<lparr>Name = ''cache'', Image = ''redis'', Version = ''7.2.4''\<rparr>]\<rparr>,
        http_get = (\<lambda>i url. if i = 0 then Response 503 None else Response 200 (Some [''7.4.0''])),
        save_ok = (\<lambda>n. True), git_ok = (\<lambda>n. True), git_tag_out = Inr [],
        now_ISOWeek = (2024, 52)\<rparr>) = 0"
proof -
  let ?h = "\<lambda>(i::nat) (url::string). if i = 0 then Response 503 None else Response 200 (Some [''7.4.0''])"
  let ?m = "\<lparr>ReleaseVersion = ''v202451.0.0'',
          Services = [\<lparr>Name = ''web'', Image = ''nginx'', Version = ''1.25.0''\<rparr>,
                      \<lparr>Name = ''cache'', Image = ''redis'', Version = ''7.2.4''\<rparr>]\<rparr>"
  let ?w = "\<lparr>load_result = Inr ?m, http_get = ?h,
        save_ok = (\<lambda>n. True), git_ok = (\<lambda>n. True), git_tag_out = Inr [],
        now_ISOWeek = (2024, 52)\<rparr>"
  let ?url = "''https://hub.docker.com/v2/repositories/library/nginx/tags?page_size=5''"
  have a1: "0 < length (Services ?m)" by simp
  have a2: "query_url (Image (Services ?m ! 0)) = Inr ?url" by (simp add: query_url_def)
  have a3: "?h 0 ?url = GetFailed
      \<or> (\<exists>status body. ?h 0 ?url = Response status body \<and> \<not> (200 \<le> status \<and> status < 300))"
    by simp
  note inst = registry_failure_skipped [of 0 ?m ?url ?h, OF a1 a2 a3]
  have r0: "getLatestTagFromDockerHub (\<lambda>url. Response 503 None) ''nginx'' = Inl (BadStatus 503)"
    by (simp add: getLatestTagFromDockerHub_def query_url_def)
  from inst have 0: "Services (manifest (scan ?h ?m)) ! 0
      = \<lparr>Name = ''web'', Image = ''nginx'', Version = ''1.25.0''\<rparr>"
    by simp
  have r1: "getLatestTagFromDockerHub (\<lambda>url. Response 200 (Some [''7.4.0''])) ''redis'' = Inr ''7.4.0''"
    by (simp add: getLatestTagFromDockerHub_def query_url_def select_tag_def)
  from inst have "\<forall>j<length (Services ?m). j \<noteq> 0 \<longrightarrow>
      Services (manifest (scan ?h ?m)) ! j = scan_service (?h j) (Services ?m ! j)"
    by blast
  from this [rule_format, of 1] have 1: "Services (manifest (scan ?h ?m)) ! 1
      = \<lparr>Name = ''cache'', Image = ''redis'', Version = ''7.4.0''\<rparr>"
    by (simp add: scan_service_def r1)
  from inst have "\<forall>w out. load_result w = Inr ?m \<and> http_get w = ?h
          \<and> (\<forall>n. save_ok w n) \<and> (\<forall>n. git_ok w n) \<and> git_tag_out w = Inr out
          \<longrightarrow> fst (main w) = 0"
    by blast
  from this [rule_format, of ?w "[]"] have 2: "fst (main ?w) = 0"
    by simp
  show ?thesis by (rule conjI r0 0 1 2)+
qed

text \<open>
  C6. If the scan marks no service as updated, the run ends with exit status 0 and no effect
  at all: no file write, no commit, no tag. That is the case when every service's resolved
  tag equals its recorded version, and the manifest the scan leaves is then the one it
  loaded. Consequently a second run over what a first run left in the manifest (whatever the
  release version written by the first run), against the same registry answers, has no
  effect either.
\<close>

theorem no_update_no_effect:
  "(load_result w = Inr m \<and> \<not> updated (scan (http_get w) m) \<longrightarrow> main w = (0, []))
   \<and> (load_result w = Inr m
        \<and> (\<forall>i<length (Services m).
              getLatestTagFromDockerHub (http_get w i) (Image (Services m ! i))
                = Inr (Version (Services m ! i)))
      \<longrightarrow> main w = (0, []) \<and> manifest (scan (http_get w) m) = m)
   \<and> (load_result w = Inr m \<longrightarrow>
        main (w\<lparr>load_result := Inr ((manifest (scan (http_get w) m))\<lparr>ReleaseVersion := rv\<rparr>)\<rparr>)
          = (0, [])
        \<and> manifest (scan (http_get w) ((manifest (scan (http_get w) m))\<lparr>ReleaseVersion := rv\<rparr>))
          = (manifest (scan (http_get w) m))\<lparr>ReleaseVersion := rv\<rparr>)"
proof (intro conjI impI)
  assume "load_result w = Inr m \<and> \<not> updated (scan (http_get w) m)"
  then show "main w = (0, [])" using main_no_update by blast
next
  assume a: "load_result w = Inr m
        \<and> (\<forall>i<length (Services m).
              getLatestTagFromDockerHub (http_get w i) (Image (Services m ! i))
                = Inr (Version (Services m ! i)))"
  then have same: "\<forall>k<length (Services m). scan_service (http_get w k) (Services m ! k) = Services m ! k"
    by (simp add: scan_service_def)
  from scan_unchanged(1) [OF same] a show "main w = (0, [])"
    using main_no_update by blast
  from same show "manifest (scan (http_get w) m) = m"
    by (rule scan_unchanged(2))
next
  assume "load_result w = Inr m"
  let ?m' = "(manifest (scan (http_get w) m))\<lparr>ReleaseVersion := rv\<rparr>"
  let ?w' = "w\<lparr>load_result := Inr ?m'\<rparr>"
  have l: "load_result ?w' = Inr ?m'" and h: "http_get ?w' = http_get w" by simp_all
  have "\<not> updated (scan (http_get ?w') ?m')"
    unfolding h by (rule scan_unchanged(1) [OF rescan_unchanged])
  with l show "main ?w' = (0, [])" by (rule main_no_update)
  show "manifest (scan (http_get w) ?m') = ?m'"
    by (rule scan_unchanged(2) [OF rescan_unchanged])
qed

theorem no_update_no_effect_witness:
  "main \<lparr>load_result = Inr \<lparr>ReleaseVersion = ''v202451.0.0'',
            Services = [\<lparr>Name = ''web'', Image = ''nginx'', Version = ''1.26.0''\<rparr>]\<rparr>,
          http_get = (\<lambda>i url. Response 200 (Some [''latest'', ''1.26.0''])),
          save_ok = (\<lambda>n. True), git_ok = (\<lambda>n. True), git_tag_out = Inr [],
          now_ISOWeek = (2024, 52)\<rparr> = (0, [])
   \<and> main \<lparr>load_result = Inr ((manifest (scan (\<lambda>i url. Response 200 (Some [''latest'', ''1.26.0'']))
              \<lparr>ReleaseVersion = ''v202451.0.0'',
                Services = [\<lparr>Name = ''web'', Image = ''nginx'', Version = ''1.25.0''\<rparr>]\<rparr>))
              \<lparr>ReleaseVersion := ''v202452.1.0''\<rparr>),
          http_get = (\<lambda>i url. Response 200 (Some [''latest'', ''1.26.0''])),
          save_ok = (\<lambda>n. True), git_ok = (\<lambda>n. True), git_tag_out = Inr [],
          now_ISOWeek = (2024, 52)\<rparr> = (0, [])"
proof -
  let ?h = "\<lambda>(i::nat) (url::string). Response 200 (Some [''latest'', ''1.26.0''])"
  let ?m = "\<lparr>ReleaseVersion = ''v202451.0.0'',
            Services = [\<lparr>Name = ''web'', Image = ''nginx'', Version = ''1.26.0''\<rparr>]\<rparr>"
  let ?mold = "\<lparr>ReleaseVersion = ''v202451.0.0'',
            Services = [\<lparr>Name = ''web'', Image = ''nginx'', Version = ''1.25.0''\<rparr>]\<rparr>"
  let ?w = "\<lparr>load_result = Inr ?m, http_get = ?h,
          save_ok = (\<lambda>n. True), git_ok = (\<lambda>n. True), git_tag_out = Inr [],
          now_ISOWeek = (2024, 52)\<rparr>"
  let ?wold = "\<lparr>load_result = Inr ?mold, http_get = ?h,
          save_ok = (\<lambda>n. True), git_ok = (\<lambda>n. True), git_tag_out = Inr [],
          now_ISOWeek = (2024, 52)\<rparr>"
  have r: "getLatestTagFromDockerHub (?h 0) ''nginx'' = Inr ''1.26.0''"
    by (simp add: getLatestTagFromDockerHub_def query_url_def select_tag_def)
  have "getLatestTagFromDockerHub (http_get ?w i) (Image (Services ?m ! i))
                = Inr (Version (Services ?m ! i))" if "i < length (Services ?m)" for i
  proof -
    from that have i0: "i = 0" by simp
    show ?thesis unfolding i0 by (simp add: r)
  qed
  then have hyp: "load_result ?w = Inr ?m
        \<and> (\<forall>i<length (Services ?m).
              getLatestTagFromDockerHub (http_get ?w i) (Image (Services ?m ! i))
                = Inr (Version (Services ?m ! i)))"
    by simp
  from no_update_no_effect [of ?w ?m] hyp have 1: "main ?w = (0, [])"
    by blast
  have l0: "load_result ?wold = Inr ?mold" by simp
  from no_update_no_effect [of ?wold ?mold "''v202452.1.0''"] l0
  have "main (?wold\<lparr>load_result := Inr ((manifest (scan (http_get ?wold) ?mold))\<lparr>ReleaseVersion := ''v202452.1.0''\<rparr>)\<rparr>)
          = (0, [])"
    by blast
  then have 2: "main \<lparr>load_result = Inr ((manifest (scan ?h ?mold))\<lparr>ReleaseVersion := ''v202452.1.0''\<rparr>),
          http_get = ?h, save_ok = (\<lambda>n. True), git_ok = (\<lambda>n. True), git_tag_out = Inr [],
          now_ISOWeek = (2024, 52)\<rparr> = (0, [])"
    by simp
  show ?thesis by (rule conjI 1 2)+
qed

end
